theory Spec2Isabelle
  imports Main "HOL-Library.Word" "HOL-Library.Signed_Division"
begin

section \<open>The Tabular Islamic calendar of ext/calendar/tabislamic.c\<close>

text \<open>
  The embedding follows the C source function by function.

  \<^item> \<open>zend_long\<close> is the 64-bit signed integer of PHP on 64-bit platforms, a \<open>64 word\<close> read
    with \<open>sint\<close>; the out-parameters \<open>int *pYear\<close>, \<open>int *pMonth\<close>, \<open>int *pDay\<close> hold 32-bit
    signed integers, a \<open>32 word\<close>. Storing a \<open>zend_long\<close> through an \<open>int *\<close> keeps the low 32
    bits (\<open>scast\<close>).
  \<^item> The two local tables are lists of \<open>zend_long\<close>. Reading an array outside its bounds is
    undefined in C; the model makes it the error \<open>OutOfBounds\<close>, so that every theorem
    about a returned date also says that no such read happened.
  \<^item> The three out-parameters are returned as a triple.
  \<^item> Signed overflow is undefined in C, while the operations on words wrap around. Past the
    guard of \<open>SdnToTabIslamic\<close> no \<open>zend_long\<close> operation overflows: lemma
    \<open>SdnToTabIslamic_decomp\<close> gives every intermediate value as the integer it stands for.
\<close>

type_synonym zend_long = "64 word"
type_synonym c_int = "32 word"

datatype error = OutOfBounds

definition array_read :: "'a list \<Rightarrow> int \<Rightarrow> error + 'a" where
  "array_read a i = (if 0 \<le> i \<and> i < int (length a) then Inr (a ! nat i) else Inl OutOfBounds)"

text \<open>C's \<open>/\<close> on signed integers truncates towards zero.\<close>

definition c_div :: "zend_long \<Rightarrow> zend_long \<Rightarrow> zend_long" where
  "c_div a b = word_of_int (sint a sdiv sint b)"

subsection \<open>Constants and tables\<close>

definition ISLAMIC_SDN_OFFSET :: zend_long where
  "ISLAMIC_SDN_OFFSET = 1948440"

text \<open>Compared with the loop counter \<open>unsigned int i\<close>, which stays in \<open>0..30\<close>: a \<open>nat\<close>.\<close>

definition CALENDAR_CYCLE_YEARS :: nat where
  "CALENDAR_CYCLE_YEARS = 30"

definition DAYS_PER_30_YEARS :: zend_long where
  "DAYS_PER_30_YEARS = 10631"

definition yearEndDays :: "zend_long list" where
  "yearEndDays = [354, 709, 1063, 1417, 1772, 2126, 2481, 2835, 3189, 3544, 3898, 4252,
     4607, 4961, 5315, 5670, 6024, 6379, 6733, 7087, 7442, 7796, 8150, 8505, 8859, 9214,
     9568, 9922, 10277, 10631]"

definition monthEndDays :: "zend_long list" where
  "monthEndDays = [30, 59, 89, 118, 148, 177, 207, 236, 266, 295, 325, 355]"

definition TabIslamicMonthName :: "string list" where
  "TabIslamicMonthName = ['''', ''Vendemiaire'', ''Brumaire'', ''Frimaire'', ''Nivose'',
     ''Pluviose'', ''Ventose'', ''Germinal'', ''Floreal'', ''Prairial'', ''Messidor'',
     ''Fructidor'', ''Extra'']"

subsection \<open>The two table scans\<close>

function getYearInCycle_loop :: "zend_long \<Rightarrow> zend_long list \<Rightarrow> nat \<Rightarrow> error + zend_long" where
  "getYearInCycle_loop dayInCycle tbl i =
     (if i < CALENDAR_CYCLE_YEARS then
        (case array_read tbl (int i) of
           Inl e \<Rightarrow> Inl e
         | Inr v \<Rightarrow> if dayInCycle <s v then Inr (of_nat (i + 1))
                    else getYearInCycle_loop dayInCycle tbl (i + 1))
      else Inr 0)"
  by pat_completeness auto
termination
  by (relation "measure (\<lambda>(d, tbl, i). CALENDAR_CYCLE_YEARS - i)") auto

definition getYearInCycle :: "zend_long \<Rightarrow> zend_long list \<Rightarrow> error + zend_long" where
  "getYearInCycle dayInCycle tbl = getYearInCycle_loop dayInCycle tbl 0"

function getMonth_loop :: "zend_long \<Rightarrow> zend_long list \<Rightarrow> nat \<Rightarrow> error + zend_long" where
  "getMonth_loop dayInYear tbl i =
     (if i < 12 then
        (case array_read tbl (int i) of
           Inl e \<Rightarrow> Inl e
         | Inr v \<Rightarrow> if dayInYear <s v then Inr (of_nat (i + 1))
                    else getMonth_loop dayInYear tbl (i + 1))
      else Inr 0)"
  by pat_completeness auto
termination
  by (relation "measure (\<lambda>(d, tbl, i). 12 - i)") auto

definition getMonth :: "zend_long \<Rightarrow> zend_long list \<Rightarrow> error + zend_long" where
  "getMonth dayInYear tbl = getMonth_loop dayInYear tbl 0"

subsection \<open>The conversions\<close>

definition SdnToTabIslamic :: "zend_long \<Rightarrow> error + (c_int \<times> c_int \<times> c_int)" where
  "SdnToTabIslamic sdn =
     (if sdn <s ISLAMIC_SDN_OFFSET then Inr (0, 0, 0)
      else
        let offsetJulianDay = sdn - ISLAMIC_SDN_OFFSET;
            cycleNum = c_div offsetJulianDay DAYS_PER_30_YEARS;
            dayInCycle = offsetJulianDay - cycleNum * DAYS_PER_30_YEARS
        in case getYearInCycle dayInCycle yearEndDays of
             Inl e \<Rightarrow> Inl e
           | Inr yearInCycle \<Rightarrow>
        let pYear = (scast (cycleNum * 30 + yearInCycle) :: c_int)
        in case (if yearInCycle = 1 then Inr 0
                 else array_read yearEndDays (sint yearInCycle - 2)) of
             Inl e \<Rightarrow> Inl e
           | Inr yearBaseDay \<Rightarrow>
        let dayInYear = dayInCycle - yearBaseDay
        in case getMonth dayInYear monthEndDays of
             Inl e \<Rightarrow> Inl e
           | Inr monthInYear \<Rightarrow>
        let pMonth = (scast monthInYear :: c_int)
        in case (if monthInYear = 1 then Inr 0
                 else array_read monthEndDays (sint monthInYear - 2)) of
             Inl e \<Rightarrow> Inl e
           | Inr monthBaseDay \<Rightarrow>
        let dayInMonth = (dayInYear - monthBaseDay) + 1;
            pDay = (scast dayInMonth :: c_int)
        in Inr (pYear, pMonth, pDay))"

definition TabIslamicToSdn :: "c_int \<Rightarrow> c_int \<Rightarrow> c_int \<Rightarrow> zend_long" where
  "TabIslamicToSdn year month day = 0"

subsection \<open>Reading the tables as integers\<close>

text \<open>
  The cumulative day count at the end of the year (month) with 0-based index \<open>i\<close>, and the
  count before its first day: what the source calls \<open>yearBaseDay\<close> and \<open>monthBaseDay\<close>.
\<close>

definition yearEnd :: "nat \<Rightarrow> int" where
  "yearEnd i = sint (yearEndDays ! i)"

definition yearBase :: "nat \<Rightarrow> int" where
  "yearBase i = (if i = 0 then 0 else sint (yearEndDays ! (i - 1)))"

definition monthEnd :: "nat \<Rightarrow> int" where
  "monthEnd i = sint (monthEndDays ! i)"

definition monthBase :: "nat \<Rightarrow> int" where
  "monthBase i = (if i = 0 then 0 else sint (monthEndDays ! (i - 1)))"

subsection \<open>Notions used to state the properties\<close>

text \<open>
  The day count of the year at the 1-based position \<open>p\<close> of the cycle, and of the month at
  the 1-based position \<open>p\<close> of the year: the difference of consecutive table entries, the
  entry before the first being 0.
\<close>

definition yearLength :: "nat \<Rightarrow> int" where
  "yearLength p = yearEnd (p - 1) - yearBase (p - 1)"

definition monthLength :: "nat \<Rightarrow> int" where
  "monthLength p = monthEnd (p - 1) - monthBase (p - 1)"

text \<open>The positions of the 355-day years in \<open>yearEndDays\<close>.\<close>

definition leapYearPositions :: "nat set" where
  "leapYearPositions = {2, 5, 7, 10, 13, 16, 18, 21, 24, 26, 29}"

text \<open>
  The SDN of the last day of year 2147483647, the largest year that \<open>*pYear\<close> can hold:
  \<open>1948440 + 71582788 * 10631 + 2480\<close>.
\<close>

definition LAST_INT_YEAR_SDN :: zend_long where
  "LAST_INT_YEAR_SDN = 760998570148"

text \<open>Calendar ordering of two results: year first, then month, then day.\<close>

definition date_earlier :: "c_int \<times> c_int \<times> c_int \<Rightarrow> c_int \<times> c_int \<times> c_int \<Rightarrow> bool" where
  "date_earlier a b =
     (case (a, b) of ((y1, m1, d1), (y2, m2, d2)) \<Rightarrow>
        y1 <s y2 \<or> (y1 = y2 \<and> (m1 <s m2 \<or> (m1 = m2 \<and> d1 <s d2))))"

declare getYearInCycle_loop.simps [simp del] getMonth_loop.simps [simp del]

section \<open>Auxiliary facts\<close>

subsection \<open>Words and integers\<close>

lemma len_year: "length yearEndDays = 30" by (simp add: yearEndDays_def)
lemma len_month: "length monthEndDays = 12" by (simp add: monthEndDays_def)

lemma sint_wi64: "- (2 ^ 63) \<le> k \<Longrightarrow> k < 2 ^ 63 \<Longrightarrow> sint (word_of_int k :: 64 word) = k"
  by (simp add: sint_sbintrunc' signed_take_bit_int_eq_self)

lemma sint_wi32: "- (2 ^ 31) \<le> k \<Longrightarrow> k < 2 ^ 31 \<Longrightarrow> sint (word_of_int k :: 32 word) = k"
  by (simp add: sint_sbintrunc' signed_take_bit_int_eq_self)

lemma scast_wi64: "- (2 ^ 63) \<le> k \<Longrightarrow> k < 2 ^ 63 \<Longrightarrow> (scast (word_of_int k :: 64 word) :: 32 word) = word_of_int k"
  by (simp add: scast_eq sint_wi64)

subsection \<open>The scans return the first index whose entry exceeds the day\<close>

lemma least_index:
  fixes P :: "nat \<Rightarrow> bool"
  assumes "P k"
  shows "\<exists>i\<le>k. P i \<and> (\<forall>j<i. \<not> P j)"
proof -
  let ?i = "LEAST i. P i"
  have "P ?i" using assms by (rule LeastI)
  moreover have "?i \<le> k" using assms by (rule Least_le)
  moreover have "\<forall>j<?i. \<not> P j" using not_less_Least by blast
  ultimately show ?thesis by blast
qed

lemma getYearInCycle_loop_found:
  assumes "k < CALENDAR_CYCLE_YEARS" and "k < length tbl" and "i \<le> k"
    and "\<forall>j. i \<le> j \<and> j < k \<longrightarrow> \<not> d <s tbl ! j" and "d <s tbl ! k"
  shows "getYearInCycle_loop d tbl i = Inr (of_nat (k + 1))"
  using assms
proof (induction "k - i" arbitrary: i)
  case 0
  then have "i = k" by simp
  with 0 show ?case
    by (subst getYearInCycle_loop.simps) (simp add: array_read_def)
next
  case (Suc n)
  then have lt: "i < k" and nf: "\<not> d <s tbl ! i" by auto
  have "getYearInCycle_loop d tbl (i + 1) = Inr (of_nat (k + 1))"
    using Suc by (intro Suc.hyps(1)) auto
  with lt nf Suc.prems show ?case
    by (subst getYearInCycle_loop.simps) (simp add: array_read_def)
qed

lemma getMonth_loop_found:
  assumes "k < 12" and "k < length tbl" and "i \<le> k"
    and "\<forall>j. i \<le> j \<and> j < k \<longrightarrow> \<not> d <s tbl ! j" and "d <s tbl ! k"
  shows "getMonth_loop d tbl i = Inr (of_nat (k + 1))"
  using assms
proof (induction "k - i" arbitrary: i)
  case 0
  then have "i = k" by simp
  with 0 show ?case
    by (subst getMonth_loop.simps) (simp add: array_read_def)
next
  case (Suc n)
  then have lt: "i < k" and nf: "\<not> d <s tbl ! i" by auto
  have "getMonth_loop d tbl (i + 1) = Inr (of_nat (k + 1))"
    using Suc by (intro Suc.hyps(1)) auto
  with lt nf Suc.prems show ?case
    by (subst getMonth_loop.simps) (simp add: array_read_def)
qed

lemma getYearInCycle_found:
  assumes "sint d < 10631"
  shows "\<exists>i<30. getYearInCycle d yearEndDays = Inr (of_nat (i + 1)) \<and> d <s yearEndDays ! i
           \<and> (\<forall>j<i. \<not> d <s yearEndDays ! j)"
proof -
  have "d <s yearEndDays ! 29"
    using assms by (simp add: word_sless_alt yearEndDays_def)
  from least_index [of "\<lambda>i. d <s yearEndDays ! i", OF this]
  obtain i where i: "i \<le> 29" "d <s yearEndDays ! i" "\<forall>j<i. \<not> d <s yearEndDays ! j"
    by blast
  then have "getYearInCycle_loop d yearEndDays 0 = Inr (of_nat (i + 1))"
    by (intro getYearInCycle_loop_found) (simp_all add: CALENDAR_CYCLE_YEARS_def len_year)
  with i show ?thesis
    by (auto simp: getYearInCycle_def intro!: exI [of _ i])
qed

lemma getMonth_found:
  assumes "sint d < 355"
  shows "\<exists>i<12. getMonth d monthEndDays = Inr (of_nat (i + 1)) \<and> d <s monthEndDays ! i
           \<and> (\<forall>j<i. \<not> d <s monthEndDays ! j)"
proof -
  have "d <s monthEndDays ! 11"
    using assms by (simp add: word_sless_alt monthEndDays_def)
  from least_index [of "\<lambda>i. d <s monthEndDays ! i", OF this]
  obtain i where i: "i \<le> 11" "d <s monthEndDays ! i" "\<forall>j<i. \<not> d <s monthEndDays ! j"
    by blast
  then have "getMonth_loop d monthEndDays 0 = Inr (of_nat (i + 1))"
    by (intro getMonth_loop_found) (simp_all add: len_month)
  with i show ?thesis
    by (auto simp: getMonth_def intro!: exI [of _ i])
qed

subsection \<open>From the SDN to the date, in integers\<close>

lemma sdiv_nonneg: "0 \<le> (n::int) \<Longrightarrow> 0 < k \<Longrightarrow> n sdiv k = n div k"
  by (cases "n = 0") (simp_all add: signed_divide_int_def)

lemma word_of_nat_idx: "i < 30 \<Longrightarrow> sint (of_nat (i + 1) :: 64 word) = int i + 1"
proof -
  assume "i < 30"
  have "(of_nat (i + 1) :: 64 word) = word_of_int (int i + 1)" by simp
  then show ?thesis
    using \<open>i < 30\<close> by (simp only:) (rule sint_wi64, simp_all)
qed

lemma year_span: "\<forall>i<30. yearEnd i - yearBase i \<le> 355"
  by (simp add: eval_nat_numeral All_less_Suc yearEnd_def yearBase_def yearEndDays_def)

lemma yearBase_range: "\<forall>i<30. 0 \<le> yearBase i \<and> yearBase i < 10631"
  by (simp add: eval_nat_numeral All_less_Suc yearBase_def yearEndDays_def)

lemma monthBase_range: "\<forall>i<12. 0 \<le> monthBase i \<and> monthBase i < 355"
  by (simp add: eval_nat_numeral All_less_Suc monthBase_def monthEndDays_def)

lemma yearBaseDay_read:
  assumes "i < 30"
  shows "(if (of_nat (i + 1) :: 64 word) = 1 then Inr 0
          else array_read yearEndDays (sint (of_nat (i + 1) :: 64 word) - 2))
         = Inr (word_of_int (yearBase i))"
proof (cases "i = 0")
  case True
  then show ?thesis by (simp add: yearBase_def)
next
  case False
  have "sint (of_nat (i + 1) :: 64 word) \<noteq> sint (1 :: 64 word)"
    using False assms by (simp only: word_of_nat_idx) simp
  then have "(of_nat (i + 1) :: 64 word) \<noteq> 1" by metis
  moreover have "nat (int i - 1) = i - 1" by simp
  ultimately show ?thesis
    using False assms
    by (simp only: word_of_nat_idx if_False) (simp add: array_read_def len_year yearBase_def)
qed

lemma monthBaseDay_read:
  assumes "i < 12"
  shows "(if (of_nat (i + 1) :: 64 word) = 1 then Inr 0
          else array_read monthEndDays (sint (of_nat (i + 1) :: 64 word) - 2))
         = Inr (word_of_int (monthBase i))"
proof (cases "i = 0")
  case True
  then show ?thesis by (simp add: monthBase_def)
next
  case False
  have i30: "i < 30" using assms by simp
  have "sint (of_nat (i + 1) :: 64 word) \<noteq> sint (1 :: 64 word)"
    using False i30 by (simp only: word_of_nat_idx) simp
  then have "(of_nat (i + 1) :: 64 word) \<noteq> 1" by metis
  moreover have "nat (int i - 1) = i - 1" by simp
  ultimately show ?thesis
    using False assms i30
    by (simp only: word_of_nat_idx if_False) (simp add: array_read_def len_month monthBase_def)
qed

lemma SdnToTabIslamic_decomp:
  assumes "1948440 \<le> sint sdn"
  defines "n \<equiv> sint sdn - 1948440"
  defines "c \<equiv> n div 10631" and "r \<equiv> n mod 10631"
  shows "\<exists>i<30. \<exists>m<12.
           yearBase i \<le> r \<and> r < yearEnd i
         \<and> monthBase m \<le> r - yearBase i \<and> r - yearBase i < monthEnd m
         \<and> getYearInCycle (word_of_int r) yearEndDays = Inr (of_nat (i + 1))
         \<and> getMonth (word_of_int (r - yearBase i)) monthEndDays = Inr (of_nat (m + 1))
         \<and> SdnToTabIslamic sdn =
             Inr (word_of_int (c * 30 + int i + 1), word_of_int (int m + 1),
                  word_of_int (r - yearBase i - monthBase m + 1))"
proof -
  have n0: "0 \<le> n" using assms by simp
  have nlt: "n < 2 ^ 63" using sint_lt [of sdn] by (simp add: n_def)
  have r0: "0 \<le> r" and rlt: "r < 10631" by (simp_all add: r_def)
  have c0: "0 \<le> c" using n0 by (simp add: c_def)
  have guard: "\<not> sdn <s ISLAMIC_SDN_OFFSET"
    using assms(1) by (simp add: word_sless_alt ISLAMIC_SDN_OFFSET_def)
  have off: "sdn - ISLAMIC_SDN_OFFSET = word_of_int n"
    by (simp add: n_def ISLAMIC_SDN_OFFSET_def)
  have cyc: "c_div (word_of_int n) DAYS_PER_30_YEARS = word_of_int c"
    using n0 nlt by (simp add: c_div_def DAYS_PER_30_YEARS_def sint_wi64 sdiv_nonneg c_def)
  have "r = n - c * 10631"
    by (simp add: r_def c_def minus_div_mult_eq_mod)
  then have dic: "word_of_int n - word_of_int c * DAYS_PER_30_YEARS = (word_of_int r :: 64 word)"
    by (simp add: DAYS_PER_30_YEARS_def)
  have sr: "sint (word_of_int r :: 64 word) = r"
    using r0 rlt by (intro sint_wi64) simp_all
  from getYearInCycle_found [of "word_of_int r"] sr rlt
  obtain i where i: "i < 30"
    and gy: "getYearInCycle (word_of_int r) yearEndDays = Inr (of_nat (i + 1))"
    and iu: "word_of_int r <s yearEndDays ! i"
    and il: "\<forall>j<i. \<not> word_of_int r <s yearEndDays ! j"
    by auto
  have ru: "r < yearEnd i"
    using iu sr by (simp add: word_sless_alt yearEnd_def)
  have rl: "yearBase i \<le> r"
  proof (cases "i = 0")
    case True
    then show ?thesis using r0 by (simp add: yearBase_def)
  next
    case False
    then have "\<not> word_of_int r <s yearEndDays ! (i - 1)" using il by simp
    then show ?thesis using False sr by (simp add: word_sless_alt yearBase_def)
  qed
  define q where "q = r - yearBase i"
  have q0: "0 \<le> q" using rl by (simp add: q_def)
  have qlt: "q < 355" using ru year_span i by (auto simp: q_def)
  have diy: "word_of_int r - word_of_int (yearBase i) = (word_of_int q :: 64 word)"
    by (simp add: q_def)
  have sq: "sint (word_of_int q :: 64 word) = q"
    using q0 qlt by (intro sint_wi64) simp_all
  from getMonth_found [of "word_of_int q"] sq qlt
  obtain m where m: "m < 12"
    and gm: "getMonth (word_of_int q) monthEndDays = Inr (of_nat (m + 1))"
    and mu: "word_of_int q <s monthEndDays ! m"
    and ml: "\<forall>j<m. \<not> word_of_int q <s monthEndDays ! j"
    by auto
  have qu: "q < monthEnd m"
    using mu sq by (simp add: word_sless_alt monthEnd_def)
  have ql: "monthBase m \<le> q"
  proof (cases "m = 0")
    case True
    then show ?thesis using q0 by (simp add: monthBase_def)
  next
    case False
    then have "\<not> word_of_int q <s monthEndDays ! (m - 1)" using ml by simp
    then show ?thesis using False sq by (simp add: word_sless_alt monthBase_def)
  qed
  have yr: "(scast (word_of_int c * 30 + of_nat (i + 1) :: 64 word) :: 32 word)
              = word_of_int (c * 30 + int i + 1)"
  proof -
    have e: "(word_of_int c * 30 + of_nat (i + 1) :: 64 word) = word_of_int (c * 30 + int i + 1)"
      by simp
    have "c * 10631 \<le> n" by (simp add: c_def)
    then have u: "c * 30 + int i + 1 < 2 ^ 63" using nlt i c0 by simp
    have l: "- (2 ^ 63) \<le> c * 30 + int i + 1" using c0 by simp
    show ?thesis unfolding e by (rule scast_wi64 [OF l u])
  qed
  have mo: "(scast (of_nat (m + 1) :: 64 word) :: 32 word) = word_of_int (int m + 1)"
  proof -
    have e: "(of_nat (m + 1) :: 64 word) = word_of_int (int m + 1)" by simp
    have u: "int m + 1 < 2 ^ 63" using m by simp
    have l: "- (2 ^ 63) \<le> int m + 1" by simp
    show ?thesis unfolding e by (rule scast_wi64 [OF l u])
  qed
  have dy: "(scast (word_of_int q - word_of_int (monthBase m) + 1 :: 64 word) :: 32 word)
              = word_of_int (r - yearBase i - monthBase m + 1)"
  proof -
    have e: "(word_of_int q - word_of_int (monthBase m) + 1 :: 64 word)
            = word_of_int (r - yearBase i - monthBase m + 1)"
      by (simp add: q_def)
    have mb0: "0 \<le> monthBase m" using monthBase_range m by blast
    have u: "r - yearBase i - monthBase m + 1 < 2 ^ 63" using mb0 qlt by (simp add: q_def)
    have l: "- (2 ^ 63) \<le> r - yearBase i - monthBase m + 1" using ql by (simp add: q_def)
    show ?thesis unfolding e by (rule scast_wi64 [OF l u])
  qed
  have "SdnToTabIslamic sdn =
          Inr (word_of_int (c * 30 + int i + 1), word_of_int (int m + 1),
               word_of_int (r - yearBase i - monthBase m + 1))"
    unfolding SdnToTabIslamic_def Let_def
    by (simp only: guard if_False off cyc dic gy sum.case yearBaseDay_read [OF i] diy gm
          monthBaseDay_read [OF m] yr mo dy)
  with i m rl ru ql qu gy gm show ?thesis
    unfolding q_def by blast
qed

subsection \<open>The tables are sorted\<close>

lemma sorted_year: "sorted (map sint yearEndDays)"
  by (simp add: yearEndDays_def)

lemma sorted_month: "sorted (map sint monthEndDays)"
  by (simp add: monthEndDays_def)

lemma yearEnd_mono: "i \<le> j \<Longrightarrow> j < 30 \<Longrightarrow> yearEnd i \<le> yearEnd j"
  using sorted_nth_mono [OF sorted_year, of i j] by (simp add: yearEnd_def len_year)

lemma monthEnd_mono: "i \<le> j \<Longrightarrow> j < 12 \<Longrightarrow> monthEnd i \<le> monthEnd j"
  using sorted_nth_mono [OF sorted_month, of i j] by (simp add: monthEnd_def len_month)

lemma yearEnd_le_yearBase: "i < j \<Longrightarrow> j < 30 \<Longrightarrow> yearEnd i \<le> yearBase j"
  using yearEnd_mono [of i "j - 1"] by (simp add: yearBase_def yearEnd_def)

lemma monthEnd_le_monthBase: "i < j \<Longrightarrow> j < 12 \<Longrightarrow> monthEnd i \<le> monthBase j"
  using monthEnd_mono [of i "j - 1"] by (simp add: monthBase_def monthEnd_def)

text \<open>Two days of the calendar, the second later than the first: their dates as integers.\<close>

lemma date_int_strict_mono:
  fixes n1 n2 :: int
  assumes lt: "n1 < n2" and n1: "0 \<le> n1"
    and i1: "i1 < 30" and m1: "m1 < 12" and i2: "i2 < 30" and m2: "m2 < 12"
    and y1: "yearBase i1 \<le> n1 mod 10631" "n1 mod 10631 < yearEnd i1"
    and y2: "yearBase i2 \<le> n2 mod 10631" "n2 mod 10631 < yearEnd i2"
    and q1: "monthBase m1 \<le> n1 mod 10631 - yearBase i1" "n1 mod 10631 - yearBase i1 < monthEnd m1"
    and q2: "monthBase m2 \<le> n2 mod 10631 - yearBase i2" "n2 mod 10631 - yearBase i2 < monthEnd m2"
  shows "n1 div 10631 * 30 + int i1 + 1 < n2 div 10631 * 30 + int i2 + 1
       \<or> (n1 div 10631 * 30 + int i1 + 1 = n2 div 10631 * 30 + int i2 + 1
          \<and> (int m1 + 1 < int m2 + 1
             \<or> (int m1 + 1 = int m2 + 1
                \<and> n1 mod 10631 - yearBase i1 - monthBase m1 + 1
                    < n2 mod 10631 - yearBase i2 - monthBase m2 + 1)))"
proof -
  define c1 r1 c2 r2 where "c1 = n1 div 10631" and "r1 = n1 mod 10631"
    and "c2 = n2 div 10631" and "r2 = n2 mod 10631"
  have e1: "n1 = c1 * 10631 + r1" and e2: "n2 = c2 * 10631 + r2"
    by (simp_all add: c1_def r1_def c2_def r2_def)
  have b1: "0 \<le> r1" "r1 < 10631" and b2: "0 \<le> r2" "r2 < 10631"
    by (simp_all add: r1_def r2_def)
  have cle: "c1 \<le> c2"
    unfolding c1_def c2_def using lt by (intro zdiv_mono1) simp_all
  show ?thesis
  proof (cases "c1 < c2")
    case True
    then have "c1 * 30 + int i1 + 1 < c2 * 30 + int i2 + 1"
      using i1 by simp
    then show ?thesis
      unfolding c1_def c2_def by blast
  next
    case False
    with cle have ceq: "c1 = c2" by simp
    with e1 e2 lt have rlt: "r1 < r2" by simp
    have ile: "i1 \<le> i2"
    proof (rule ccontr)
      assume "\<not> i1 \<le> i2"
      then have "yearEnd i2 \<le> yearBase i1"
        using i1 by (intro yearEnd_le_yearBase) simp_all
      with y1 y2 rlt show False by (simp add: r1_def r2_def)
    qed
    show ?thesis
    proof (cases "i1 < i2")
      case True
      then show ?thesis using ceq by (simp add: c1_def c2_def)
    next
      case False
      with ile have ieq: "i1 = i2" by simp
      have qlt: "r1 - yearBase i1 < r2 - yearBase i2"
        using rlt ieq by simp
      have mle: "m1 \<le> m2"
      proof (rule ccontr)
        assume "\<not> m1 \<le> m2"
        then have "monthEnd m2 \<le> monthBase m1"
          using m1 by (intro monthEnd_le_monthBase) simp_all
        with q1 q2 qlt show False by (simp add: r1_def r2_def)
      qed
      show ?thesis
      proof (cases "m1 < m2")
        case True
        then show ?thesis using ceq ieq by (simp add: c1_def c2_def)
      next
        case False
        with mle have "m1 = m2" by simp
        then show ?thesis
          using ceq ieq qlt by (simp add: c1_def c2_def r1_def r2_def)
      qed
    qed
  qed
qed

text \<open>Up to \<open>LAST_INT_YEAR_SDN\<close> the year fits the 32-bit \<open>int\<close>.\<close>

lemma year_fits_int:
  fixes n :: int
  assumes n0: "0 \<le> n" and nle: "n \<le> 760996621708"
    and i: "i < 30" and y: "yearBase i \<le> n mod 10631"
  shows "n div 10631 * 30 + int i + 1 \<le> 2147483647"
proof -
  define c r where "c = n div 10631" and "r = n mod 10631"
  have e: "n = c * 10631 + r" by (simp add: c_def r_def)
  have r0: "0 \<le> r" by (simp add: r_def)
  have "n div 10631 \<le> 760996621708 div 10631"
    using nle by (intro zdiv_mono1) simp_all
  then have cle: "c \<le> 71582788" by (simp add: c_def)
  show ?thesis
  proof (cases "c = 71582788")
    case True
    with e nle have rle: "r \<le> 2480" by simp
    have "i \<le> 6"
    proof (rule ccontr)
      assume "\<not> i \<le> 6"
      then have "yearEnd 6 \<le> yearBase i"
        using i by (intro yearEnd_le_yearBase) simp_all
      moreover have "yearEnd 6 = 2481" by (simp add: yearEnd_def yearEndDays_def)
      ultimately show False using y rle by (simp add: r_def)
    qed
    with True show ?thesis by (simp add: c_def)
  next
    case False
    with cle have "c \<le> 71582787" by simp
    with i show ?thesis by (simp add: c_def)
  qed
qed

subsection \<open>Results as integers\<close>

lemma word_of_int_32_inj:
  assumes "- (2 ^ 31) \<le> a" "a < 2 ^ 31" "- (2 ^ 31) \<le> b" "b < 2 ^ 31"
  shows "(word_of_int a :: 32 word) = word_of_int b \<longleftrightarrow> a = b"
  using assms sint_wi32 [of a] sint_wi32 [of b] by metis

lemma date_earlier_of_int:
  assumes "- (2 ^ 31) \<le> Y1" "Y1 < 2 ^ 31" "- (2 ^ 31) \<le> Y2" "Y2 < 2 ^ 31"
    and "- (2 ^ 31) \<le> M1" "M1 < 2 ^ 31" "- (2 ^ 31) \<le> M2" "M2 < 2 ^ 31"
    and "- (2 ^ 31) \<le> D1" "D1 < 2 ^ 31" "- (2 ^ 31) \<le> D2" "D2 < 2 ^ 31"
  shows "date_earlier (word_of_int Y1, word_of_int M1, word_of_int D1)
           (word_of_int Y2, word_of_int M2, word_of_int D2)
         \<longleftrightarrow> Y1 < Y2 \<or> (Y1 = Y2 \<and> (M1 < M2 \<or> (M1 = M2 \<and> D1 < D2)))"
  using assms
  by (simp add: date_earlier_def word_sless_alt sint_wi32 word_of_int_32_inj)

lemma SdnToTabIslamic_strict_mono:
  assumes a1: "1948440 \<le> sint sdn1" and a2: "sint sdn1 < sint sdn2"
    and a3: "sint sdn2 \<le> 760998570148"
  shows "\<exists>a b. SdnToTabIslamic sdn1 = Inr a \<and> SdnToTabIslamic sdn2 = Inr b
           \<and> date_earlier a b \<and> \<not> date_earlier b a"
proof -
  define n1 n2 where "n1 = sint sdn1 - 1948440" and "n2 = sint sdn2 - 1948440"
  have n: "0 \<le> n1" "n1 < n2" "n2 \<le> 760996621708"
    using a1 a2 a3 by (simp_all add: n1_def n2_def)
  from SdnToTabIslamic_decomp [OF a1]
  obtain i1 m1 where i1: "i1 < 30" and m1: "m1 < 12"
    and y1: "yearBase i1 \<le> n1 mod 10631" "n1 mod 10631 < yearEnd i1"
    and q1: "monthBase m1 \<le> n1 mod 10631 - yearBase i1" "n1 mod 10631 - yearBase i1 < monthEnd m1"
    and s1: "SdnToTabIslamic sdn1 =
               Inr (word_of_int (n1 div 10631 * 30 + int i1 + 1), word_of_int (int m1 + 1),
                    word_of_int (n1 mod 10631 - yearBase i1 - monthBase m1 + 1))"
    unfolding n1_def by blast
  have a1': "1948440 \<le> sint sdn2" using a1 a2 by simp
  from SdnToTabIslamic_decomp [OF a1']
  obtain i2 m2 where i2: "i2 < 30" and m2: "m2 < 12"
    and y2: "yearBase i2 \<le> n2 mod 10631" "n2 mod 10631 < yearEnd i2"
    and q2: "monthBase m2 \<le> n2 mod 10631 - yearBase i2" "n2 mod 10631 - yearBase i2 < monthEnd m2"
    and s2: "SdnToTabIslamic sdn2 =
               Inr (word_of_int (n2 div 10631 * 30 + int i2 + 1), word_of_int (int m2 + 1),
                    word_of_int (n2 mod 10631 - yearBase i2 - monthBase m2 + 1))"
    unfolding n2_def by blast
  define Y1 M1 D1 where "Y1 = n1 div 10631 * 30 + int i1 + 1" and "M1 = int m1 + 1"
    and "D1 = n1 mod 10631 - yearBase i1 - monthBase m1 + 1"
  define Y2 M2 D2 where "Y2 = n2 div 10631 * 30 + int i2 + 1" and "M2 = int m2 + 1"
    and "D2 = n2 mod 10631 - yearBase i2 - monthBase m2 + 1"
  have lex: "Y1 < Y2 \<or> (Y1 = Y2 \<and> (M1 < M2 \<or> (M1 = M2 \<and> D1 < D2)))"
    unfolding Y1_def M1_def D1_def Y2_def M2_def D2_def
    using n(2) n(1) i1 m1 i2 m2 y1 y2 q1 q2 by (rule date_int_strict_mono)
  have n20: "0 \<le> n2" using n by simp
  have n1le: "n1 \<le> 760996621708" using n by simp
  have Y1u: "Y1 \<le> 2147483647"
    unfolding Y1_def using n(1) n1le i1 y1(1) by (rule year_fits_int)
  have Y2u: "Y2 \<le> 2147483647"
    unfolding Y2_def using n20 n(3) i2 y2(1) by (rule year_fits_int)
  have Y1l: "0 \<le> Y1" using n(1) by (simp add: Y1_def pos_imp_zdiv_nonneg_iff)
  have Y2l: "0 \<le> Y2" using n20 by (simp add: Y2_def pos_imp_zdiv_nonneg_iff)
  have Mb: "0 \<le> M1" "M1 \<le> 12" "0 \<le> M2" "M2 \<le> 12"
    using m1 m2 by (simp_all add: M1_def M2_def)
  have mb1: "0 \<le> monthBase m1" using monthBase_range m1 by blast
  have mb2: "0 \<le> monthBase m2" using monthBase_range m2 by blast
  have yb1: "0 \<le> yearBase i1" using yearBase_range i1 by blast
  have yb2: "0 \<le> yearBase i2" using yearBase_range i2 by blast
  have Db: "0 \<le> D1" "D1 \<le> 10631" "0 \<le> D2" "D2 \<le> 10631"
    using q1(1) q2(1) mb1 mb2 yb1 yb2
      pos_mod_bound [of 10631 n1] pos_mod_bound [of 10631 n2]
    by (simp_all add: D1_def D2_def)
  have fwd: "date_earlier (word_of_int Y1, word_of_int M1, word_of_int D1)
               (word_of_int Y2, word_of_int M2, word_of_int D2)
             \<longleftrightarrow> Y1 < Y2 \<or> (Y1 = Y2 \<and> (M1 < M2 \<or> (M1 = M2 \<and> D1 < D2)))"
    using Y1u Y2u Y1l Y2l Mb Db by (intro date_earlier_of_int) simp_all
  have bwd: "date_earlier (word_of_int Y2, word_of_int M2, word_of_int D2)
               (word_of_int Y1, word_of_int M1, word_of_int D1)
             \<longleftrightarrow> Y2 < Y1 \<or> (Y2 = Y1 \<and> (M2 < M1 \<or> (M2 = M1 \<and> D2 < D1)))"
    using Y1u Y2u Y1l Y2l Mb Db by (intro date_earlier_of_int) simp_all
  have "date_earlier (word_of_int Y1, word_of_int M1, word_of_int D1)
          (word_of_int Y2, word_of_int M2, word_of_int D2)"
    using lex fwd by simp
  moreover have "\<not> date_earlier (word_of_int Y2, word_of_int M2, word_of_int D2)
          (word_of_int Y1, word_of_int M1, word_of_int D1)"
    using lex bwd by auto
  ultimately show ?thesis
    using s1 s2 unfolding Y1_def M1_def D1_def Y2_def M2_def D2_def by blast
qed

subsection \<open>Unfolding the model on concrete inputs\<close>

lemmas eval_defs = SdnToTabIslamic_def ISLAMIC_SDN_OFFSET_def DAYS_PER_30_YEARS_def c_div_def
  getYearInCycle_def getMonth_def yearEndDays_def monthEndDays_def array_read_def
  CALENDAR_CYCLE_YEARS_def getYearInCycle_loop.simps getMonth_loop.simps
  word_sless_alt word_sle_eq

section \<open>The claims\<close>

subsection \<open>Dates before the epoch\<close>

text \<open>
  C4: for every \<open>sdn\<close> strictly less than the epoch constant 1948440, \<open>SdnToTabIslamic\<close>
  sets the three outputs to the sentinel \<open>(0, 0, 0)\<close>.
\<close>

theorem SdnToTabIslamic_before_epoch:
  "sdn <s ISLAMIC_SDN_OFFSET \<Longrightarrow> SdnToTabIslamic sdn = Inr (0, 0, 0)"
  by (simp add: SdnToTabIslamic_def)

theorem SdnToTabIslamic_before_epoch_witness:
  "(1948439 :: zend_long) <s ISLAMIC_SDN_OFFSET \<and> SdnToTabIslamic 1948439 = Inr (0, 0, 0)"
proof -
  have h: "(1948439 :: zend_long) <s ISLAMIC_SDN_OFFSET"
    by (simp add: ISLAMIC_SDN_OFFSET_def)
  show ?thesis using h SdnToTabIslamic_before_epoch [OF h] by simp
qed

subsection \<open>The epoch scenarios\<close>

text \<open>
  C5: \<open>SdnToTabIslamic 1948440\<close> yields \<open>(1, 1, 1)\<close>, the first day of year 1, and
  \<open>SdnToTabIslamic (1948440 + 354)\<close> yields \<open>(2, 1, 1)\<close>, the first day of year 2, year 1
  having 354 days.
\<close>

theorem SdnToTabIslamic_epoch_scenarios:
  "SdnToTabIslamic 1948440 = Inr (1, 1, 1)
   \<and> SdnToTabIslamic (1948440 + 354) = Inr (2, 1, 1)
   \<and> yearLength 1 = 354"
  by (simp add: eval_defs yearLength_def yearEnd_def yearBase_def)

subsection \<open>The scans always find a match\<close>

text \<open>
  C9: for every \<open>dayInCycle\<close> in \<open>[0, 10631)\<close> the scan of \<open>getYearInCycle\<close> finds a match
  and returns a value in \<open>[1, 30]\<close>, never its defensive 0; for every \<open>dayInYear\<close> in
  \<open>[0, 355)\<close> the scan of \<open>getMonth\<close> finds a match and returns a value in \<open>[1, 12]\<close>,
  never its defensive 0. Neither reads outside its table.
\<close>

theorem scans_find_a_match:
  "(0 \<le>s dayInCycle \<and> dayInCycle <s DAYS_PER_30_YEARS \<longrightarrow>
      (\<exists>y. getYearInCycle dayInCycle yearEndDays = Inr y \<and> 1 \<le>s y \<and> y \<le>s 30))
   \<and> (0 \<le>s dayInYear \<and> dayInYear <s 355 \<longrightarrow>
      (\<exists>mo. getMonth dayInYear monthEndDays = Inr mo \<and> 1 \<le>s mo \<and> mo \<le>s 12))"
proof (intro conjI impI)
  assume "0 \<le>s dayInCycle \<and> dayInCycle <s DAYS_PER_30_YEARS"
  then have "sint dayInCycle < 10631"
    by (simp add: word_sless_alt DAYS_PER_30_YEARS_def)
  from getYearInCycle_found [OF this]
  obtain i where i: "i < 30" "getYearInCycle dayInCycle yearEndDays = Inr (of_nat (i + 1))"
    by blast
  have "sint (of_nat (i + 1) :: 64 word) = int i + 1"
    using i(1) by (rule word_of_nat_idx)
  then have "1 \<le>s (of_nat (i + 1) :: 64 word) \<and> (of_nat (i + 1) :: 64 word) \<le>s 30"
    using i(1) by (simp only: word_sle_eq) simp
  with i(2) show "\<exists>y. getYearInCycle dayInCycle yearEndDays = Inr y \<and> 1 \<le>s y \<and> y \<le>s 30"
    by blast
next
  assume "0 \<le>s dayInYear \<and> dayInYear <s 355"
  then have "sint dayInYear < 355"
    by (simp add: word_sless_alt)
  from getMonth_found [OF this]
  obtain i where i: "i < 12" "getMonth dayInYear monthEndDays = Inr (of_nat (i + 1))"
    by blast
  have "sint (of_nat (i + 1) :: 64 word) = int i + 1"
    using i(1) by (intro word_of_nat_idx) simp
  then have "1 \<le>s (of_nat (i + 1) :: 64 word) \<and> (of_nat (i + 1) :: 64 word) \<le>s 12"
    using i(1) by (simp only: word_sle_eq) simp
  with i(2) show "\<exists>mo. getMonth dayInYear monthEndDays = Inr mo \<and> 1 \<le>s mo \<and> mo \<le>s 12"
    by blast
qed

theorem scans_find_a_match_witness:
  "(0 :: zend_long) \<le>s 709 \<and> (709 :: zend_long) <s DAYS_PER_30_YEARS
   \<and> (\<exists>y. getYearInCycle 709 yearEndDays = Inr y \<and> 1 \<le>s y \<and> y \<le>s 30)
   \<and> (0 :: zend_long) \<le>s 354 \<and> (354 :: zend_long) <s 355
   \<and> (\<exists>mo. getMonth 354 monthEndDays = Inr mo \<and> 1 \<le>s mo \<and> mo \<le>s 12)"
  using scans_find_a_match [of 709 354] by (simp add: DAYS_PER_30_YEARS_def word_sle_eq)

subsection \<open>The inverse conversion\<close>

text \<open>
  C10: \<open>TabIslamicToSdn\<close> is the constant-zero function: for every input triple
  \<open>(year, month, day)\<close>, valid supported dates included, it returns 0.
\<close>

theorem TabIslamicToSdn_constant_zero: "TabIslamicToSdn year month day = 0"
  by (simp add: TabIslamicToSdn_def)

text \<open>
  C1: the round-trip law asks that a valid date converted with \<open>TabIslamicToSdn\<close> and back
  with \<open>SdnToTabIslamic\<close> is the original triple, and that \<open>TabIslamicToSdn\<close> is positive on
  valid dates. At \<open>(1, 1, 1)\<close>, the date of SDN 1948440, the code returns 0 and the way back
  gives the sentinel \<open>(0, 0, 0)\<close>.
\<close>

theorem TabIslamicToSdn_round_trip_at_1_1_1:
  "SdnToTabIslamic 1948440 = Inr (1, 1, 1)
   \<and> TabIslamicToSdn 1 1 1 = 0
   \<and> SdnToTabIslamic (TabIslamicToSdn 1 1 1) = Inr (0, 0, 0)"
  by (simp add: TabIslamicToSdn_def eval_defs)

subsection \<open>The year table\<close>

text \<open>
  The claim C2 places a 355-day year at every 4th position (3, 7, 11, ...). In the table
  the year at position 3 has 354 days.
\<close>

theorem yearLength_position_3: "yearLength 3 = 354 \<and> yearLength 3 \<noteq> 355"
  by (simp add: yearLength_def yearEnd_def yearBase_def yearEndDays_def)

text \<open>
  C2, as the table has it: the difference of consecutive \<open>yearEndDays\<close> entries is 355 at the
  positions 2, 5, 7, 10, 13, 16, 18, 21, 24, 26 and 29 of the 30-year cycle, and 354 at every
  other position from 1 to 30.
\<close>

theorem yearLength_leap_positions:
  "\<forall>p\<in>{1..30}. yearLength p = (if p \<in> leapYearPositions then 355 else 354)"
  by (simp add: atLeastAtMost_upt upt_rec [of _ "numeral _"] yearLength_def yearEnd_def
        yearBase_def yearEndDays_def leapYearPositions_def)

theorem yearLength_leap_positions_witness:
  "(2 :: nat) \<in> {1..30} \<and> yearLength 2 = 355 \<and> (4 :: nat) \<in> {1..30} \<and> yearLength 4 = 354"
  using yearLength_leap_positions [THEN bspec, of 2] yearLength_leap_positions [THEN bspec, of 4]
  by (simp add: leapYearPositions_def)

subsection \<open>The month table\<close>

text \<open>
  The claim C3 gives every month from 1 to 11 a span of 30 days. In the table the month at
  position 2 spans 29 days.
\<close>

theorem monthLength_position_2: "monthLength 2 = 29 \<and> monthLength 2 \<noteq> 30"
  by (simp add: monthLength_def monthEnd_def monthBase_def monthEndDays_def)

text \<open>
  C3, as the table has it: the difference of consecutive \<open>monthEndDays\<close> entries is 30 at the
  odd positions and 29 at the even positions from 1 to 11, and 30 at position 12. The last
  day of every year of the cycle is in month 12, which so has \<open>yearLength p - 325\<close> days:
  29 in a 354-day year and 30 in a 355-day year.
\<close>

theorem monthLength_alternates:
  "(\<forall>p\<in>{1..11}. monthLength p = (if odd p then 30 else 29))
   \<and> monthLength 12 = 30
   \<and> (\<forall>p\<in>{1..30}. getMonth (word_of_int (yearLength p - 1)) monthEndDays = Inr 12
          \<and> yearLength p - monthBase 11 = (if p \<in> leapYearPositions then 30 else 29))"
  by (simp add: atLeastAtMost_upt upt_rec [of _ "numeral _"] monthLength_def monthEnd_def
        monthBase_def yearLength_def yearEnd_def yearBase_def leapYearPositions_def eval_defs)

theorem monthLength_alternates_witness:
  "(3 :: nat) \<in> {1..11} \<and> monthLength 3 = 30 \<and> (4 :: nat) \<in> {1..11} \<and> monthLength 4 = 29
   \<and> (1 :: nat) \<in> {1..30} \<and> yearLength 1 - monthBase 11 = 29"
  using monthLength_alternates [THEN conjunct1, THEN bspec, of 3]
    monthLength_alternates [THEN conjunct1, THEN bspec, of 4]
    monthLength_alternates [THEN conjunct2, THEN conjunct2, THEN bspec, of 1]
  by (simp add: leapYearPositions_def)

subsection \<open>The steps of the conversion\<close>

text \<open>
  The claim C6 lets the output year be \<open>cycleNum * 30 + yearInCycle\<close> for every SDN from the
  epoch on. One day after \<open>LAST_INT_YEAR_SDN\<close> that sum is 2147483648, and \<open>*pYear\<close>
  holds -2147483648.
\<close>

theorem SdnToTabIslamic_year_wraps:
  "ISLAMIC_SDN_OFFSET \<le>s 760998570149
   \<and> (sint (760998570149 :: zend_long) - 1948440) div 10631 = 71582788
   \<and> (sint (760998570149 :: zend_long) - 1948440) mod 10631 = 2481
   \<and> getYearInCycle 2481 yearEndDays = Inr 8
   \<and> (71582788 * 30 + 8 :: int) = 2147483648
   \<and> SdnToTabIslamic 760998570149 = Inr (- 2147483648, 1, 1)
   \<and> sint (- 2147483648 :: c_int) = - 2147483648"
  by (simp add: eval_defs)

text \<open>
  C6, as the code has it. For every \<open>sdn\<close> from the epoch 1948440 on, with
  \<open>offset = sdn - 1948440\<close>, \<open>cycleNum = offset div 10631\<close> and
  \<open>dayInCycle = offset mod 10631\<close> in \<open>[0, 10631)\<close>: \<open>getYearInCycle\<close> returns \<open>i + 1\<close> for
  the smallest 0-based index \<open>i\<close> with \<open>dayInCycle < yearEndDays[i]\<close>; \<open>dayInYear\<close> is
  \<open>dayInCycle\<close> minus 0 if \<open>yearInCycle = 1\<close> and minus \<open>yearEndDays[yearInCycle - 2]\<close>
  otherwise; \<open>getMonth\<close> returns \<open>m + 1\<close> for the smallest index \<open>m\<close> with
  \<open>dayInYear < monthEndDays[m]\<close>; the output month is \<open>m + 1\<close> and the output day is
  \<open>dayInYear\<close> minus the month base day, plus 1. The output year is
  \<open>cycleNum * 30 + yearInCycle\<close> stored in the 32-bit \<open>*pYear\<close>: that very number for
  \<open>sdn\<close> up to \<open>LAST_INT_YEAR_SDN\<close>, its low 32 bits beyond.
\<close>

theorem SdnToTabIslamic_steps:
  assumes "ISLAMIC_SDN_OFFSET \<le>s sdn"
  defines "offset \<equiv> sint sdn - 1948440"
  defines "cycleNum \<equiv> offset div 10631" and "dayInCycle \<equiv> offset mod 10631"
  shows "0 \<le> dayInCycle \<and> dayInCycle < 10631 \<and> (\<exists>i<30. \<exists>m<12.
           dayInCycle < yearEnd i \<and> (\<forall>j<i. \<not> dayInCycle < yearEnd j)
         \<and> getYearInCycle (word_of_int dayInCycle) yearEndDays = Inr (of_nat (i + 1))
         \<and> (let dayInYear = dayInCycle - yearBase i in
              dayInYear < monthEnd m \<and> (\<forall>j<m. \<not> dayInYear < monthEnd j)
            \<and> getMonth (word_of_int dayInYear) monthEndDays = Inr (of_nat (m + 1))
            \<and> (\<exists>pYear pMonth pDay.
                 SdnToTabIslamic sdn = Inr (pYear, pMonth, pDay)
               \<and> pYear = word_of_int (cycleNum * 30 + (int i + 1))
               \<and> (sdn \<le>s LAST_INT_YEAR_SDN \<longrightarrow> sint pYear = cycleNum * 30 + (int i + 1))
               \<and> sint pMonth = int m + 1
               \<and> sint pDay = dayInYear - monthBase m + 1)))"
proof -
  have a: "1948440 \<le> sint sdn"
    using assms(1) by (simp add: word_sle_eq ISLAMIC_SDN_OFFSET_def)
  have n0: "0 \<le> offset" using a by (simp add: offset_def)
  from SdnToTabIslamic_decomp [OF a]
  obtain i m where i: "i < 30" and m: "m < 12"
    and y: "yearBase i \<le> dayInCycle" "dayInCycle < yearEnd i"
    and q: "monthBase m \<le> dayInCycle - yearBase i" "dayInCycle - yearBase i < monthEnd m"
    and gy: "getYearInCycle (word_of_int dayInCycle) yearEndDays = Inr (of_nat (i + 1))"
    and gm: "getMonth (word_of_int (dayInCycle - yearBase i)) monthEndDays = Inr (of_nat (m + 1))"
    and s: "SdnToTabIslamic sdn =
              Inr (word_of_int (cycleNum * 30 + int i + 1), word_of_int (int m + 1),
                   word_of_int (dayInCycle - yearBase i - monthBase m + 1))"
    unfolding offset_def cycleNum_def dayInCycle_def by blast
  have r: "0 \<le> dayInCycle" "dayInCycle < 10631"
    by (simp_all add: dayInCycle_def)
  have yleast: "\<forall>j<i. \<not> dayInCycle < yearEnd j"
  proof (intro allI impI)
    fix j assume "j < i"
    then have "yearEnd j \<le> yearBase i" using i by (rule yearEnd_le_yearBase)
    with y(1) show "\<not> dayInCycle < yearEnd j" by simp
  qed
  have mleast: "\<forall>j<m. \<not> dayInCycle - yearBase i < monthEnd j"
  proof (intro allI impI)
    fix j assume "j < m"
    then have "monthEnd j \<le> monthBase m" using m by (rule monthEnd_le_monthBase)
    with q(1) show "\<not> dayInCycle - yearBase i < monthEnd j" by simp
  qed
  have fits: "sint (word_of_int (cycleNum * 30 + int i + 1) :: 32 word) = cycleNum * 30 + int i + 1"
    if "sdn \<le>s LAST_INT_YEAR_SDN"
  proof -
    have "offset \<le> 760996621708"
      using that by (simp add: word_sle_eq LAST_INT_YEAR_SDN_def offset_def)
    with n0 have "offset div 10631 * 30 + int i + 1 \<le> 2147483647"
      using i y(1) unfolding dayInCycle_def by (intro year_fits_int)
    moreover have "0 \<le> offset div 10631 * 30 + int i + 1"
      using n0 by (simp add: pos_imp_zdiv_nonneg_iff)
    ultimately show ?thesis
      unfolding cycleNum_def by (intro sint_wi32) simp_all
  qed
  have sm: "sint (word_of_int (int m + 1) :: 32 word) = int m + 1"
    using m by (intro sint_wi32) simp_all
  have mb: "0 \<le> monthBase m" using monthBase_range m by blast
  have yb: "0 \<le> yearBase i" using yearBase_range i by blast
  have sd: "sint (word_of_int (dayInCycle - yearBase i - monthBase m + 1) :: 32 word)
              = dayInCycle - yearBase i - monthBase m + 1"
    using q(1) r(2) yb mb by (intro sint_wi32) simp_all
  show ?thesis
    using r i m y(2) yleast gy q(2) mleast gm s fits sm sd
    unfolding Let_def by (auto simp: add.assoc)
qed

theorem SdnToTabIslamic_steps_witness:
  "ISLAMIC_SDN_OFFSET \<le>s 1948794 \<and> 1948794 \<le>s LAST_INT_YEAR_SDN
   \<and> (\<exists>pYear pMonth pDay. SdnToTabIslamic 1948794 = Inr (pYear, pMonth, pDay))"
  using SdnToTabIslamic_steps [of 1948794]
  by (auto simp: ISLAMIC_SDN_OFFSET_def LAST_INT_YEAR_SDN_def Let_def)

subsection \<open>Monotonicity\<close>

text \<open>
  The claim C7 asks for monotonicity at every pair \<open>sdn1 < sdn2\<close> from the epoch on. The
  last day of year 2147483647 and the day after it are such a pair: the year stored for the
  second is -2147483648, so that its date is earlier than that of the first.
\<close>

theorem SdnToTabIslamic_not_monotone_past_int_year:
  "ISLAMIC_SDN_OFFSET \<le>s 760998570148
   \<and> (760998570148 :: zend_long) <s 760998570149
   \<and> SdnToTabIslamic 760998570148 = Inr (2147483647, 12, 30)
   \<and> SdnToTabIslamic 760998570149 = Inr (- 2147483648, 1, 1)
   \<and> date_earlier (- 2147483648, 1, 1) (2147483647, 12, 30)"
  by (simp add: eval_defs date_earlier_def)

text \<open>
  C7, as the code has it: for every pair \<open>sdn1 < sdn2\<close>, both at least the epoch constant
  1948440 and at most \<open>LAST_INT_YEAR_SDN\<close> = 760998570148, the last day whose year \<open>*pYear\<close>
  can hold, the triple that \<open>SdnToTabIslamic\<close> produces for \<open>sdn2\<close> is not earlier than the
  triple for \<open>sdn1\<close> in calendar ordering (year first, then month, then day).
\<close>

theorem SdnToTabIslamic_monotone:
  assumes "ISLAMIC_SDN_OFFSET \<le>s sdn1" and "sdn1 <s sdn2" and "sdn2 \<le>s LAST_INT_YEAR_SDN"
  shows "\<exists>date1 date2. SdnToTabIslamic sdn1 = Inr date1 \<and> SdnToTabIslamic sdn2 = Inr date2
           \<and> \<not> date_earlier date2 date1"
proof -
  have "1948440 \<le> sint sdn1" "sint sdn1 < sint sdn2" "sint sdn2 \<le> 760998570148"
    using assms by (simp_all add: word_sle_eq word_sless_alt ISLAMIC_SDN_OFFSET_def LAST_INT_YEAR_SDN_def)
  from SdnToTabIslamic_strict_mono [OF this] show ?thesis by blast
qed

theorem SdnToTabIslamic_monotone_witness:
  "ISLAMIC_SDN_OFFSET \<le>s 1948440 \<and> (1948440 :: zend_long) <s 1948794
   \<and> 1948794 \<le>s LAST_INT_YEAR_SDN
   \<and> (\<exists>date1 date2. SdnToTabIslamic 1948440 = Inr date1 \<and> SdnToTabIslamic 1948794 = Inr date2
           \<and> \<not> date_earlier date2 date1)"
  using SdnToTabIslamic_monotone [of 1948440 1948794]
  by (simp add: ISLAMIC_SDN_OFFSET_def LAST_INT_YEAR_SDN_def)

subsection \<open>The month names\<close>

text \<open>
  The claim C8 gives index 13 the label \<open>Extra\<close> and every index from 1 to 12 a month name.
  The table has no index 13, and \<open>Extra\<close> is what it holds at index 12.
\<close>

theorem TabIslamicMonthName_index_13:
  "array_read TabIslamicMonthName 13 = Inl OutOfBounds
   \<and> array_read TabIslamicMonthName 13 \<noteq> Inr ''Extra''
   \<and> array_read TabIslamicMonthName 12 = Inr ''Extra''"
  by (simp add: array_read_def TabIslamicMonthName_def)

text \<open>
  C8, as the table is declared: \<open>TabIslamicMonthName\<close> has 13 entries, so that 12 is its last
  index and 13 is outside of it; index 0 yields the empty string and the indices 1 to 11
  yield the month names Vendemiaire, Brumaire, Frimaire, Nivose, Pluviose, Ventose, Germinal,
  Floreal, Prairial, Messidor and Fructidor.
\<close>

theorem TabIslamicMonthName_lookup:
  "length TabIslamicMonthName = 13
   \<and> array_read TabIslamicMonthName 0 = Inr ''''
   \<and> map (array_read TabIslamicMonthName) [1, 2, 3, 4, 5, 6, 7, 8, 9, 10, 11]
       = map Inr [''Vendemiaire'', ''Brumaire'', ''Frimaire'', ''Nivose'', ''Pluviose'',
           ''Ventose'', ''Germinal'', ''Floreal'', ''Prairial'', ''Messidor'', ''Fructidor'']
   \<and> array_read TabIslamicMonthName 13 = Inl OutOfBounds"
  by (simp add: array_read_def TabIslamicMonthName_def)

end
